theory Spec2Isabelle
  imports Main "HOL-Library.AList"
begin

section \<open>Strings of the JavaScript runtime\<close>

text \<open>
  Both scripts are browser JavaScript. A JavaScript string is modelled as a \<^typ>\<open>string\<close>,
  one \<^typ>\<open>char\<close> per code unit, so the model covers the strings whose code units are below
  256 (ASCII and Latin-1). The package names and the file names of the index this script walks are
  ASCII. The built-in string operations the scripts call are modelled on that range.
\<close>

definition code :: "char \<Rightarrow> nat" where
  "code c = of_char c"

text \<open>\<open>String.prototype.trim\<close> removes white space and line terminators from both ends:
  TAB, LF, VT, FF, CR, SP and NBSP are the ones below 256.\<close>

definition isWhiteSpace :: "char \<Rightarrow> bool" where
  "isWhiteSpace c = (code c \<in> {9, 10, 11, 12, 13, 32, 160})"

definition trim :: "string \<Rightarrow> string" where
  "trim s = rev (dropWhile isWhiteSpace (rev (dropWhile isWhiteSpace s)))"

text \<open>\<open>s.split(sep)\<close> for a separator of one character: the empty string splits into one
  empty token, and \<open>n\<close> separators give \<open>n + 1\<close> tokens.\<close>

fun split :: "char \<Rightarrow> string \<Rightarrow> string list" where
  "split sep [] = [[]]"
| "split sep (c # cs) =
     (if c = sep then [] # split sep cs
      else (case split sep cs of
              [] \<Rightarrow> [[c]]
            | t # ts \<Rightarrow> (c # t) # ts))"

text \<open>\<open>xs.join(sep)\<close> on an array of strings.\<close>

fun join :: "string \<Rightarrow> string list \<Rightarrow> string" where
  "join sep [] = []"
| "join sep [x] = x"
| "join sep (x # y # ys) = x @ sep @ join sep (y # ys)"

definition startsWith :: "string \<Rightarrow> string \<Rightarrow> bool" where
  "startsWith s p = (take (length p) s = p)"

text \<open>Upper and lower case of a letter below 256 differ in bit 5 only.\<close>

fun clear_bit5 :: "char \<Rightarrow> char" where
  "clear_bit5 (Char b0 b1 b2 b3 b4 b5 b6 b7) = Char b0 b1 b2 b3 b4 False b6 b7"

fun set_bit5 :: "char \<Rightarrow> char" where
  "set_bit5 (Char b0 b1 b2 b3 b4 b5 b6 b7) = Char b0 b1 b2 b3 b4 True b6 b7"

text \<open>\<open>String.prototype.toLowerCase\<close> on one code unit: \<open>A\<close> to \<open>Z\<close>, and the Latin-1
  capitals 192 to 222 without the multiplication sign 215.\<close>

definition toLowerCase_char :: "char \<Rightarrow> char" where
  "toLowerCase_char c =
     (let n = code c in
      if (65 \<le> n \<and> n \<le> 90) \<or> (192 \<le> n \<and> n \<le> 222 \<and> n \<noteq> 215) then set_bit5 c else c)"

text \<open>\<open>Number.prototype.toString\<close> on a non-negative integer: its decimal digits.\<close>

definition digit :: "nat \<Rightarrow> char" where
  "digit d = (''0123456789'' ! d)"

fun toString :: "nat \<Rightarrow> string" where
  "toString n = (if n < 10 then [digit n] else toString (n div 10) @ [digit (n mod 10)])"

declare toString.simps [simp del]

definition dquote :: char where
  "dquote = CHR 0x22"

definition backslash :: char where
  "backslash = CHR 0x5C"

definition newline :: char where
  "newline = CHR 0x0A"

section \<open>The regular expressions of \<open>new RegExp(pattern, 'i')\<close>\<close>

text \<open>
  The walker builds its pattern from the package name without escaping it, so the name is read
  as pattern text. The model parses the part of the pattern language made of pattern characters,
  \<open>.\<close>, identity escapes, character classes of plain members, the quantifiers \<open>*\<close>, \<open>+\<close> and
  \<open>?\<close> (greedy or lazy) and the assertions \<open>^\<close> and \<open>$\<close>; it reports the syntax errors of that
  part; every other pattern (groups, \<open>|\<close>, braces, class ranges, escapes of letters and digits)
  is \<open>Unsupported\<close> and left to a parameter.
\<close>

datatype atom = PatternCharacter char | Dot | CharacterClass bool "char list"

datatype quantifier = Once | Star | Plus | Optional

datatype regex_term = AssertStart | AssertEnd | Quantified atom quantifier

datatype follow = NoAtom | AfterAtom | AfterQuantifier

datatype mode = Top follow | Escape | InClass "char list"

datatype parsed = Parsed "regex_term list" | Invalid | Unsupported

text \<open>The members of a class body: a leading \<open>^\<close> negates; \<open>-\<close> is a member when it is first or
  last, and would make a range elsewhere.\<close>

definition class_of :: "char list \<Rightarrow> atom option" where
  "class_of body =
     (let negated = (body \<noteq> [] \<and> hd body = CHR ''^'');
          members = (if negated then tl body else body)
      in if members \<noteq> [] \<and> CHR ''-'' \<in> set (butlast (tl members)) then None
         else Some (CharacterClass negated members))"

definition isAlnum :: "char \<Rightarrow> bool" where
  "isAlnum c = (let n = code c in (48 \<le> n \<and> n \<le> 57) \<or> (65 \<le> n \<and> n \<le> 90) \<or> (97 \<le> n \<and> n \<le> 122))"

definition quantify :: "quantifier \<Rightarrow> regex_term list \<Rightarrow> regex_term list" where
  "quantify q acc =
     (case acc of
        Quantified a _ # rest \<Rightarrow> Quantified a q # rest
      | _ \<Rightarrow> acc)"

text \<open>One pass over the pattern text; \<open>acc\<close> holds the terms read so far, last first.\<close>

fun scan :: "mode \<Rightarrow> regex_term list \<Rightarrow> string \<Rightarrow> parsed" where
  "scan (Top f) acc [] = Parsed (rev acc)"
| "scan Escape acc [] = Invalid"
| "scan (InClass body) acc [] = Invalid"
| "scan Escape acc (c # cs) =
     (if isAlnum c then Unsupported
      else scan (Top AfterAtom) (Quantified (PatternCharacter c) Once # acc) cs)"
| "scan (InClass body) acc (c # cs) =
     (if c = backslash then Unsupported
      else if c = CHR '']'' then
        (case class_of (rev body) of
           None \<Rightarrow> Unsupported
         | Some a \<Rightarrow> scan (Top AfterAtom) (Quantified a Once # acc) cs)
      else scan (InClass (c # body)) acc cs)"
| "scan (Top f) acc (c # cs) =
     (if c = CHR ''^'' then scan (Top NoAtom) (AssertStart # acc) cs
      else if c = CHR ''$'' then scan (Top NoAtom) (AssertEnd # acc) cs
      else if c = backslash then scan Escape acc cs
      else if c = CHR ''['' then scan (InClass []) acc cs
      else if c = CHR ''.'' then scan (Top AfterAtom) (Quantified Dot Once # acc) cs
      else if c = CHR ''*'' then
        (if f = AfterAtom then scan (Top AfterQuantifier) (quantify Star acc) cs else Invalid)
      else if c = CHR ''+'' then
        (if f = AfterAtom then scan (Top AfterQuantifier) (quantify Plus acc) cs else Invalid)
      else if c = CHR ''?'' then
        (if f = AfterAtom then scan (Top AfterQuantifier) (quantify Optional acc) cs
         else if f = AfterQuantifier then scan (Top NoAtom) acc cs
         else Invalid)
      else if c \<in> set ''()|{}]'' then Unsupported
      else scan (Top AfterAtom) (Quantified (PatternCharacter c) Once # acc) cs)"

text \<open>With the \<open>i\<close> flag and without the \<open>u\<close> flag two characters are compared after
  \<open>Canonicalize\<close>, which upper-cases a character unless that takes more than one code unit or
  leaves the non-ASCII range for the ASCII one. Below 256 it upper-cases \<open>a\<close> to \<open>z\<close> and the
  Latin-1 small letters 224 to 254 without the division sign 247; the micro sign 181 and
  \<open>y\<close> with diaeresis 255 upper-case to characters above 255 that no other character below 256
  reaches, and \<open>sharp s\<close> 223 to two code units, so the three stay as they are.\<close>

definition Canonicalize :: "char \<Rightarrow> char" where
  "Canonicalize c =
     (let n = code c in
      if (97 \<le> n \<and> n \<le> 122) \<or> (224 \<le> n \<and> n \<le> 254 \<and> n \<noteq> 247) then clear_bit5 c else c)"

text \<open>\<open>.\<close> matches every character but a line terminator (LF and CR below 256).\<close>

definition isLineTerminator :: "char \<Rightarrow> bool" where
  "isLineTerminator c = (code c = 10 \<or> code c = 13)"

fun atom_matches :: "atom \<Rightarrow> char \<Rightarrow> bool" where
  "atom_matches (PatternCharacter p) c = (Canonicalize p = Canonicalize c)"
| "atom_matches Dot c = (\<not> isLineTerminator c)"
| "atom_matches (CharacterClass negated members) c =
     ((Canonicalize c \<in> Canonicalize ` set members) \<noteq> negated)"

text \<open>\<open>matches_here ts at_start s\<close>: the terms \<open>ts\<close> match a prefix of the rest \<open>s\<close> of the
  input, \<open>at_start\<close> telling whether \<open>s\<close> is the whole input. No term of this part of the
  language looks at what an earlier term matched, so whether a match exists does not depend on the
  order (greedy or lazy) in which the alternatives are tried.\<close>

fun matches_here :: "regex_term list \<Rightarrow> bool \<Rightarrow> string \<Rightarrow> bool" where
  "matches_here [] at_start s = True"
| "matches_here (AssertStart # ts) at_start s = (at_start \<and> matches_here ts at_start s)"
| "matches_here (AssertEnd # ts) at_start s = (s = [] \<and> matches_here ts at_start s)"
| "matches_here (Quantified a Once # ts) at_start [] = False"
| "matches_here (Quantified a Once # ts) at_start (c # cs) =
     (atom_matches a c \<and> matches_here ts False cs)"
| "matches_here (Quantified a Optional # ts) at_start [] = matches_here ts at_start []"
| "matches_here (Quantified a Optional # ts) at_start (c # cs) =
     ((atom_matches a c \<and> matches_here ts False cs) \<or> matches_here ts at_start (c # cs))"
| "matches_here (Quantified a Star # ts) at_start [] = matches_here ts at_start []"
| "matches_here (Quantified a Star # ts) at_start (c # cs) =
     ((atom_matches a c \<and> matches_here (Quantified a Star # ts) False cs)
      \<or> matches_here ts at_start (c # cs))"
| "matches_here (Quantified a Plus # ts) at_start [] = False"
| "matches_here (Quantified a Plus # ts) at_start (c # cs) =
     (atom_matches a c \<and> matches_here (Quantified a Star # ts) False cs)"

text \<open>\<open>regex.test(s)\<close> on a regular expression without the \<open>g\<close> and \<open>y\<close> flags: a match
  starting at some position of \<open>s\<close>.\<close>

fun test_from :: "regex_term list \<Rightarrow> bool \<Rightarrow> string \<Rightarrow> bool" where
  "test_from ts at_start [] = matches_here ts at_start []"
| "test_from ts at_start (c # cs) = (matches_here ts at_start (c # cs) \<or> test_from ts False cs)"

definition test :: "regex_term list \<Rightarrow> string \<Rightarrow> bool" where
  "test ts s = test_from ts True s"

datatype js_error = TypeError | SyntaxError

text \<open>\<open>new RegExp(pattern, 'i')\<close> returns the regular expression, here as its \<open>test\<close> method,
  or throws a \<open>SyntaxError\<close>. \<open>other\<close> is the constructor on the patterns outside the modelled
  part of the language (\<open>None\<close> where it throws).\<close>

definition RegExp :: "(string \<Rightarrow> (string \<Rightarrow> bool) option) \<Rightarrow> string \<Rightarrow> js_error + (string \<Rightarrow> bool)" where
  "RegExp other pattern =
     (case scan (Top NoAtom) [] pattern of
        Parsed ts \<Rightarrow> Inr (test ts)
      | Invalid \<Rightarrow> Inl SyntaxError
      | Unsupported \<Rightarrow> (case other pattern of None \<Rightarrow> Inl SyntaxError | Some t \<Rightarrow> Inr t))"

section \<open>The walker: \<open>EPEL 9 RPM Auto Downloader\<close>\<close>

text \<open>
  \<open>sessionStorage\<close> under the two keys of the script. The script is the only writer of the two
  entries: \<open>epel9_rpm_packages\<close> holds \<open>JSON.stringify\<close> of an array of strings and
  \<open>epel9_rpm_index\<close> the decimal digits of a number, and it reads them back with \<open>JSON.parse\<close>
  and \<open>parseInt\<close>. The model keeps the decoded values; \<open>None\<close> is a missing entry (\<open>getItem\<close>
  returns \<open>null\<close>).
\<close>

record storage =
  epel9_rpm_packages :: "string list option"
  epel9_rpm_index :: "nat option"

text \<open>What one run of the script reads from the page: the answer to \<open>prompt\<close> (\<open>None\<close> when
  the dialog is cancelled), \<open>window.location.pathname\<close> and \<open>window.location.href\<close>, the
  \<open>href\<close> attribute of every anchor of the document in document order (\<open>None\<close> for an anchor
  without the attribute), and the \<open>RegExp\<close> constructor on the patterns the model does not
  parse.\<close>

record env =
  prompt_reply :: "string option"
  pathname :: string
  href :: string
  anchors :: "string option list"
  RegExp_other :: "string \<Rightarrow> (string \<Rightarrow> bool) option"

datatype effect =
    Prompt string
  | Alert string
  | ConsoleLog string
  | ConsoleWarn string
  | Navigate string
  | Download string
  | Sleep nat
  | Reload

datatype outcome = Halted | Completed | Navigating | NotFound | Fetched | Threw js_error

record result =
  store :: storage
  trace :: "effect list"
  outcome :: outcome

definition prompt_text :: string where
  "prompt_text = ''Enter a comma-separated list of EPEL 9 RPM package names (e.g. nano,vim,libappindicator):''"

text \<open>Line 29: \<open>input.split(',').map(p => p.trim()).filter(Boolean)\<close>.\<close>

definition pkgs :: "string \<Rightarrow> string list" where
  "pkgs input = filter (\<lambda>p. p \<noteq> []) (map trim (split (CHR '','') input))"

text \<open>Lines 23 to 37. The third component tells whether the run goes on after the block.\<close>

definition initialize :: "env \<Rightarrow> storage \<Rightarrow> storage \<times> effect list \<times> bool" where
  "initialize e st =
     (case epel9_rpm_packages st of
        Some _ \<Rightarrow> (st, [], True)
      | None \<Rightarrow>
          (case prompt_reply e of
             None \<Rightarrow> (st, [Prompt prompt_text, Alert ''No packages entered. Script will not run.''], False)
           | Some input \<Rightarrow>
               if input = [] then
                 (st, [Prompt prompt_text, Alert ''No packages entered. Script will not run.''], False)
               else if pkgs input = [] then
                 (st, [Prompt prompt_text, Alert ''No valid packages entered.''], False)
               else
                 (st\<lparr>epel9_rpm_packages := Some (pkgs input), epel9_rpm_index := Some 0\<rparr>,
                  [Prompt prompt_text,
                   Alert (''Starting download of '' @ toString (length (pkgs input)) @ '' packages...'')],
                  True)))"

text \<open>Lines 40 to 49: the item under the cursor. A missing index entry parses to \<open>NaN\<close>, which
  is not \<open>>= packages.length\<close> and indexes nothing, so \<open>pkg\<close> is \<open>undefined\<close>.\<close>

datatype current = Done | Item string | Undefined

definition currentItem :: "string list \<Rightarrow> nat option \<Rightarrow> current" where
  "currentItem packages index =
     (case index of
        None \<Rightarrow> Undefined
      | Some i \<Rightarrow> if i \<ge> length packages then Done else Item (packages ! i))"

definition expectedPath :: "char \<Rightarrow> string" where
  "expectedPath ch = ''/pub/epel/9/Everything/x86_64/Packages/'' @ [toLowerCase_char ch] @ ''/''"

definition fullUrl :: "char \<Rightarrow> string" where
  "fullUrl ch = ''https://dl.fedoraproject.org'' @ expectedPath ch"

text \<open>Line 64: the pattern text \<open>^${pkg}[-].*\\.rpm$\<close>.\<close>

definition pattern :: "string \<Rightarrow> string" where
  "pattern pkg = ''^'' @ pkg @ ''[-].*'' @ [backslash] @ ''.rpm$''"

text \<open>Lines 65 to 67: the \<open>href\<close> attributes that are present, not empty and pass the test.\<close>

definition matchedLinks :: "(string \<Rightarrow> bool) \<Rightarrow> string option list \<Rightarrow> string list" where
  "matchedLinks regex_test as =
     map the (filter (\<lambda>h. case h of None \<Rightarrow> False | Some l \<Rightarrow> l \<noteq> [] \<and> regex_test l) as)"

text \<open>Lines 49 to 91, for the item \<open>pkg\<close> at the cursor \<open>index\<close>. Reading \<open>pkg[0]\<close> of an empty
  string gives \<open>undefined\<close>, and \<open>undefined.toLowerCase()\<close> throws.\<close>

definition process :: "env \<Rightarrow> storage \<Rightarrow> nat \<Rightarrow> string \<Rightarrow> result" where
  "process e st index pkg =
     (case pkg of
        [] \<Rightarrow> \<lparr>store = st, trace = [], outcome = Threw TypeError\<rparr>
      | ch # _ \<Rightarrow>
          if \<not> startsWith (pathname e) (expectedPath ch) then
            \<lparr>store = st,
             trace = [ConsoleLog (''Navigating to directory for package '' @ [dquote] @ pkg @ [dquote] @ ''...''),
                      Navigate (fullUrl ch)],
             outcome = Navigating\<rparr>
          else
            (case RegExp (RegExp_other e) (pattern pkg) of
               Inl err \<Rightarrow> \<lparr>store = st, trace = [], outcome = Threw err\<rparr>
             | Inr regex_test \<Rightarrow>
                 (case matchedLinks regex_test (anchors e) of
                    [] \<Rightarrow>
                      \<lparr>store = st\<lparr>epel9_rpm_index := Some (index + 1)\<rparr>,
                       trace = [ConsoleWarn (''No RPM found for package '' @ [dquote] @ pkg @ [dquote]), Reload],
                       outcome = NotFound\<rparr>
                  | l # _ \<Rightarrow>
                      \<lparr>store = st\<lparr>epel9_rpm_index := Some (index + 1)\<rparr>,
                       trace = [ConsoleLog (''Downloading: '' @ href e @ l), Download (href e @ l),
                                Sleep 3000, Reload],
                       outcome = Fetched\<rparr>)))"

text \<open>Lines 39 to 91. \<open>JSON.parse(null)\<close> is \<open>null\<close>, whose \<open>length\<close> cannot be read.\<close>

definition walk :: "env \<Rightarrow> storage \<Rightarrow> result" where
  "walk e st =
     (case epel9_rpm_packages st of
        None \<Rightarrow> \<lparr>store = st, trace = [], outcome = Threw TypeError\<rparr>
      | Some packages \<Rightarrow>
          (case currentItem packages (epel9_rpm_index st) of
             Done \<Rightarrow>
               \<lparr>store = st\<lparr>epel9_rpm_packages := None, epel9_rpm_index := None\<rparr>,
                trace = [Alert ''All packages processed!''],
                outcome = Completed\<rparr>
           | Undefined \<Rightarrow> \<lparr>store = st, trace = [], outcome = Threw TypeError\<rparr>
           | Item pkg \<Rightarrow> process e st (the (epel9_rpm_index st)) pkg))"

text \<open>One run of \<open>main\<close>, that is one load of a page the script matches.\<close>

definition main :: "env \<Rightarrow> storage \<Rightarrow> result" where
  "main e st =
     (case initialize e st of
        (st', fx, goes_on) \<Rightarrow>
          if \<not> goes_on then \<lparr>store = st', trace = fx, outcome = Halted\<rparr>
          else (let r = walk e st' in r\<lparr>trace := fx @ trace r\<rparr>))"

text \<open>The storages the script can leave behind, starting from a session that has neither
  entry.\<close>

inductive reachable :: "storage \<Rightarrow> bool" where
  fresh: "reachable \<lparr>epel9_rpm_packages = None, epel9_rpm_index = None\<rparr>"
| run: "reachable st \<Longrightarrow> reachable (store (main e st))"

code_pred reachable .

fun is_Download :: "effect \<Rightarrow> bool" where
  "is_Download (Download _) = True"
| "is_Download _ = False"

fun is_Sleep :: "effect \<Rightarrow> bool" where
  "is_Sleep (Sleep _) = True"
| "is_Sleep _ = False"

fun is_Navigate :: "effect \<Rightarrow> bool" where
  "is_Navigate (Navigate _) = True"
| "is_Navigate _ = False"

fun is_Alert :: "effect \<Rightarrow> bool" where
  "is_Alert (Alert _) = True"
| "is_Alert _ = False"

section \<open>The table export: \<open>get-epo-packages-list.js\<close>\<close>

text \<open>What the script reads from the page: the \<open>innerText\<close> of the \<open>td\<close> and \<open>th\<close> cells of
  \<open>#PackageTable_headerTable\<close>, and for every \<open>tbody tr\<close> of \<open>#PackageTable_dataTable\<close> the
  \<open>innerText\<close> of its \<open>td\<close> cells (\<open>None\<close> when the element is not in the document).
  \<open>Object_prototype\<close> is the table of the properties every object inherits, by name, each as the
  text \<open>join\<close> turns it into; it belongs to the runtime.\<close>

record page =
  headerTable :: "string list option"
  dataTable :: "string list list option"
  Object_prototype :: "string \<Rightarrow> string option"

datatype csv_effect = ConsoleError string | DownloadBlob string string string

text \<open>Lines 8 to 10.\<close>

definition headers :: "string list \<Rightarrow> string list" where
  "headers hcells = filter (\<lambda>text. text \<noteq> []) (map trim hcells)"

text \<open>\<open>headers[i]\<close> used as a property name: out of range it is \<open>undefined\<close>, whose property
  name is the text \<open>undefined\<close>.\<close>

definition header_key :: "string list \<Rightarrow> nat \<Rightarrow> string" where
  "header_key hs i = (if i < length hs then hs ! i else ''undefined'')"

text \<open>\<open>Object.fromEntries\<close>: a later entry replaces the value of an earlier one with the same
  key. The object is kept as the list of its own properties, in the order they were first set;
  JavaScript lists integer-like names first, which the script cannot observe, as it only asks
  whether some value is non-empty and reads values by name.\<close>

definition fromEntries :: "(string \<times> string) list \<Rightarrow> (string \<times> string) list" where
  "fromEntries entries = fold (\<lambda>(k, v) obj. AList.update k v obj) entries []"

text \<open>Lines 13 to 15, for the cells of one \<open>tr\<close>.\<close>

definition row_object :: "string list \<Rightarrow> string list \<Rightarrow> (string \<times> string) list" where
  "row_object hs tds =
     (let cells = drop 1 (map trim tds)
      in fromEntries (map (\<lambda>(i, cell). (header_key hs i, cell)) (enumerate 0 cells)))"

text \<open>Lines 12 to 16: \<open>Object.values(row).some(val => val)\<close> keeps the rows with a value that
  is not empty.\<close>

definition data :: "string list \<Rightarrow> string list list \<Rightarrow> (string \<times> string) list list" where
  "data hs rows = filter (\<lambda>row. list_ex (\<lambda>val. val \<noteq> []) (map snd row)) (map (row_object hs) rows)"

text \<open>\<open>row[header] || ''\<close> as \<open>join\<close> prints it: an own property, else an inherited one (never
  falsy), else \<open>undefined\<close>.\<close>

definition cell_text :: "(string \<Rightarrow> string option) \<Rightarrow> (string \<times> string) list \<Rightarrow> string \<Rightarrow> string" where
  "cell_text proto row header =
     (case map_of row header of
        Some v \<Rightarrow> v
      | None \<Rightarrow> (case proto header of Some s \<Rightarrow> s | None \<Rightarrow> []))"

text \<open>Lines 19 to 22.\<close>

definition csv :: "(string \<Rightarrow> string option) \<Rightarrow> string list \<Rightarrow> string list list \<Rightarrow> string" where
  "csv proto hcells rows =
     (let hs = headers hcells
      in join [newline] (join '','' hs # map (\<lambda>row. join '','' (map (cell_text proto row) hs)) (data hs rows)))"

text \<open>The whole script: its effects in order.\<close>

definition csv_script :: "page \<Rightarrow> csv_effect list" where
  "csv_script p =
     (case (dataTable p, headerTable p) of
        (Some rows, Some hcells) \<Rightarrow> [DownloadBlob ''data.csv'' ''text/csv'' (csv (Object_prototype p) hcells rows)]
      | _ \<Rightarrow> [ConsoleError ''Table or headers not found.''])"

text \<open>The export as the specification words it, on a grid of cell texts: the first column is
  dropped from the header row and from every body row, each row becomes a mapping from header to
  cell, the rows whose values are all empty are removed, and the header line and one line per
  remaining row are joined.\<close>

definition spec_row_map :: "string list \<Rightarrow> string list \<Rightarrow> (string \<rightharpoonup> string)" where
  "spec_row_map hs cells = map_of (zip hs cells)"

definition spec_row_empty :: "string list \<Rightarrow> string list \<Rightarrow> bool" where
  "spec_row_empty hs cells = list_all (\<lambda>h. spec_row_map hs cells h \<in> {None, Some []}) hs"

definition spec_row_line :: "string list \<Rightarrow> string list \<Rightarrow> string" where
  "spec_row_line hs cells = join '','' (map (\<lambda>h. case spec_row_map hs cells h of None \<Rightarrow> [] | Some v \<Rightarrow> v) hs)"

definition spec_csv :: "string list \<Rightarrow> string list list \<Rightarrow> string" where
  "spec_csv header body =
     (let hs = drop 1 header;
          rows = map (drop 1) body
      in join [newline] (join '','' hs # map (spec_row_line hs) (filter (\<lambda>r. \<not> spec_row_empty hs r) rows)))"

text \<open>The grids the export is written for: the first header cell is blank, the other header cells
  are not blank and differ from each other, and every body row is as wide as the header row.\<close>

definition grid_ok :: "string list \<Rightarrow> string list list \<Rightarrow> bool" where
  "grid_ok header body =
     ((case header of [] \<Rightarrow> True | h # hs \<Rightarrow> h = [] \<and> list_all (\<lambda>x. x \<noteq> []) hs \<and> distinct hs)
      \<and> list_all (\<lambda>r. length r = length header) body)"

section \<open>Example pages and storages\<close>

definition listing_n :: env where
  "listing_n =
     \<lparr>prompt_reply = None,
      pathname = ''/pub/epel/9/Everything/x86_64/Packages/n/'',
      href = ''https://dl.fedoraproject.org/pub/epel/9/Everything/x86_64/Packages/n/'',
      anchors = [None, Some ''../'', Some ''nano-6.2-1.el9.x86_64.rpm'', Some ''nano-doc-6.2-1.el9.rpm''],
      RegExp_other = (\<lambda>_. None)\<rparr>"

definition listing_z :: env where
  "listing_z =
     \<lparr>prompt_reply = Some ''nano, vim'',
      pathname = ''/pub/epel/9/Everything/x86_64/Packages/z/'',
      href = ''https://dl.fedoraproject.org/pub/epel/9/Everything/x86_64/Packages/z/'',
      anchors = [Some ''../'', Some ''zabbix-6.0.1-1.el9.x86_64.rpm''],
      RegExp_other = (\<lambda>_. None)\<rparr>"

definition stored :: "string list \<Rightarrow> nat \<Rightarrow> storage" where
  "stored W c = \<lparr>epel9_rpm_packages = Some W, epel9_rpm_index = Some c\<rparr>"

definition no_entries :: storage where
  "no_entries = \<lparr>epel9_rpm_packages = None, epel9_rpm_index = None\<rparr>"

text \<open>The terms of the pattern built for \<open>nano\<close>.\<close>

definition nano_terms :: "regex_term list" where
  "nano_terms =
     [AssertStart, Quantified (PatternCharacter (CHR ''n'')) Once,
      Quantified (PatternCharacter (CHR ''a'')) Once, Quantified (PatternCharacter (CHR ''n'')) Once,
      Quantified (PatternCharacter (CHR ''o'')) Once, Quantified (CharacterClass False ''-'') Once,
      Quantified Dot Star, Quantified (PatternCharacter (CHR ''.'')) Once,
      Quantified (PatternCharacter (CHR ''r'')) Once, Quantified (PatternCharacter (CHR ''p'')) Once,
      Quantified (PatternCharacter (CHR ''m'')) Once, AssertEnd]"

section \<open>The storage invariant\<close>

text \<open>What the script keeps true of the storage: both entries or neither, and no empty item.\<close>

definition storage_ok :: "storage \<Rightarrow> bool" where
  "storage_ok st =
     (case epel9_rpm_packages st of
        None \<Rightarrow> epel9_rpm_index st = None
      | Some W \<Rightarrow> list_all (\<lambda>p. p \<noteq> []) W \<and> epel9_rpm_index st \<noteq> None)"

section \<open>Example tables\<close>

text \<open>The properties of \<open>Object.prototype\<close>, printed as V8 prints them.\<close>

definition v8_Object_prototype :: "string \<Rightarrow> string option" where
  "v8_Object_prototype name =
     (if name = ''__proto__'' then Some ''[object Object]''
      else if name = ''constructor'' then Some ''function Object() { [native code] }''
      else if name \<in> set [''toString'', ''toLocaleString'', ''valueOf'', ''hasOwnProperty'',
                            ''isPrototypeOf'', ''propertyIsEnumerable'', ''__defineGetter__'',
                            ''__defineSetter__'', ''__lookupGetter__'', ''__lookupSetter__'']
      then Some (''function '' @ name @ ''() { [native code] }'')
      else None)"

definition page_with_id_column :: page where
  "page_with_id_column =
     \<lparr>headerTable = Some [''Id'', ''Name''],
      dataTable = Some [[''1'', ''x'']],
      Object_prototype = v8_Object_prototype\<rparr>"

definition page_epo :: page where
  "page_epo =
     \<lparr>headerTable = Some ['' '', ''Name '', ''Version''],
      dataTable = Some [[''x'', ''nano'', ''6.2''], ['''', '''', '' ''], [''y'', ''vim'', '''']],
      Object_prototype = v8_Object_prototype\<rparr>"

section \<open>The target in the words of the specification\<close>

text \<open>The characters with a meaning of their own in a pattern.\<close>

definition special :: "char \<Rightarrow> bool" where
  "special c = (c \<in> set ''^$.*+?()[]{}|'' \<or> c = backslash)"

definition plain :: "string \<Rightarrow> bool" where
  "plain pkg = list_all (\<lambda>c. \<not> special c) pkg"

text \<open>The target as the specification words it: the file name starts with the item name
  followed by \<open>-\<close> and ends in \<open>.rpm\<close>, both compared case-insensitively.\<close>

definition endsWith :: "string \<Rightarrow> string \<Rightarrow> bool" where
  "endsWith s p = (length p \<le> length s \<and> drop (length s - length p) s = p)"

definition spec_target :: "string \<Rightarrow> string \<Rightarrow> bool" where
  "spec_target pkg fname =
     (startsWith (map Canonicalize fname) (map Canonicalize (pkg @ ''-'')) \<and>
      endsWith (map Canonicalize fname) (map Canonicalize ''.rpm''))"

text \<open>The part of a file name after the name and the \<open>-\<close> and before the last four
  characters.\<close>

definition between :: "string \<Rightarrow> string \<Rightarrow> string" where
  "between pkg fname = take (length fname - (length pkg + 5)) (drop (length pkg + 1) fname)"

text \<open>The terms of the pattern built for a name without special characters.\<close>

definition literal :: "char \<Rightarrow> regex_term" where
  "literal c = Quantified (PatternCharacter c) Once"

definition tail_terms :: "regex_term list" where
  "tail_terms = [literal (CHR ''.''), literal (CHR ''r''), literal (CHR ''p''), literal (CHR ''m''), AssertEnd]"

definition terms_of :: "string \<Rightarrow> regex_term list" where
  "terms_of pkg =
     AssertStart # map literal pkg @
     Quantified (CharacterClass False ''-'') Once # Quantified Dot Star # tail_terms"

section \<open>Example folders for names with special characters\<close>

text \<open>Two folders with the file of a package whose name has a \<open>+\<close>.\<close>

definition listing_m :: env where
  "listing_m =
     \<lparr>prompt_reply = None,
      pathname = ''/pub/epel/9/Everything/x86_64/Packages/m/'',
      href = ''https://dl.fedoraproject.org/pub/epel/9/Everything/x86_64/Packages/m/'',
      anchors = [Some ''../'', Some ''memtest86+-7.00-1.el9.x86_64.rpm''],
      RegExp_other = (\<lambda>_. None)\<rparr>"

definition listing_l :: env where
  "listing_l =
     \<lparr>prompt_reply = None,
      pathname = ''/pub/epel/9/Everything/x86_64/Packages/l/'',
      href = ''https://dl.fedoraproject.org/pub/epel/9/Everything/x86_64/Packages/l/'',
      anchors = [Some ''../'', Some ''libxml++-2.40.1-1.el9.x86_64.rpm''],
      RegExp_other = (\<lambda>_. None)\<rparr>"

section \<open>One run of the walker, block by block\<close>

lemma main_persisted:
  "epel9_rpm_packages st = Some W \<Longrightarrow> main e st = walk e st"
  by (simp add: main_def initialize_def)

lemma walk_in_range:
  "epel9_rpm_packages st = Some W \<Longrightarrow> epel9_rpm_index st = Some c \<Longrightarrow> c < length W \<Longrightarrow>
   walk e st = process e st c (W ! c)"
  by (simp add: walk_def currentItem_def)

lemma walk_done:
  "epel9_rpm_packages st = Some W \<Longrightarrow> epel9_rpm_index st = Some c \<Longrightarrow> length W \<le> c \<Longrightarrow>
   walk e st = \<lparr>store = st\<lparr>epel9_rpm_packages := None, epel9_rpm_index := None\<rparr>,
                 trace = [Alert ''All packages processed!''], outcome = Completed\<rparr>"
  by (simp add: walk_def currentItem_def)

lemma process_outcome_cases:
  "outcome (process e st c pkg) \<in> {Fetched, NotFound} \<Longrightarrow>
     store (process e st c pkg) = st\<lparr>epel9_rpm_index := Some (c + 1)\<rparr>"
  by (auto simp: process_def split: list.splits if_splits sum.splits)

lemma process_store_cases:
  "store (process e st c pkg) = st \<or> store (process e st c pkg) = st\<lparr>epel9_rpm_index := Some (c + 1)\<rparr>"
  by (auto simp: process_def split: list.splits if_splits sum.splits)

text \<open>The trace of the block that handles one item, by outcome.\<close>

lemma process_trace_cases:
  "(outcome (process e st c pkg) = Fetched \<and>
      (\<exists>l. trace (process e st c pkg) = [ConsoleLog (''Downloading: '' @ href e @ l), Download (href e @ l), Sleep 3000, Reload]))
   \<or> (outcome (process e st c pkg) = NotFound \<and>
      trace (process e st c pkg) = [ConsoleWarn (''No RPM found for package '' @ [dquote] @ pkg @ [dquote]), Reload])
   \<or> (outcome (process e st c pkg) = Navigating \<and>
      (\<exists>ch. trace (process e st c pkg) = [ConsoleLog (''Navigating to directory for package '' @ [dquote] @ pkg @ [dquote] @ ''...''), Navigate (fullUrl ch)]))
   \<or> ((\<exists>err. outcome (process e st c pkg) = Threw err) \<and> trace (process e st c pkg) = [])"
  by (auto simp: process_def split: list.splits if_splits sum.splits)

lemma walk_trace_cases:
  "(outcome (walk e st) = Fetched \<and>
      (\<exists>l. trace (walk e st) = [ConsoleLog (''Downloading: '' @ href e @ l), Download (href e @ l), Sleep 3000, Reload]))
   \<or> (outcome (walk e st) = NotFound \<and> (\<exists>m. trace (walk e st) = [ConsoleWarn m, Reload]))
   \<or> (outcome (walk e st) = Navigating \<and> (\<exists>m u. trace (walk e st) = [ConsoleLog m, Navigate u]))
   \<or> (outcome (walk e st) = Completed \<and> trace (walk e st) = [Alert ''All packages processed!''])
   \<or> ((\<exists>err. outcome (walk e st) = Threw err) \<and> trace (walk e st) = [])"
proof (cases "epel9_rpm_packages st")
  case None
  then show ?thesis by (simp add: walk_def)
next
  case (Some W)
  show ?thesis
  proof (cases "currentItem W (epel9_rpm_index st)")
    case Done
    then show ?thesis using Some by (simp add: walk_def)
  next
    case (Item pkg)
    then have "walk e st = process e st (the (epel9_rpm_index st)) pkg"
      using Some by (simp add: walk_def)
    then show ?thesis
      using process_trace_cases [of e st "the (epel9_rpm_index st)" pkg] by auto
  next
    case Undefined
    then show ?thesis using Some by (simp add: walk_def)
  qed
qed

lemma initialize_trace:
  "initialize e st = (st', fx, go) \<Longrightarrow>
     fx = [] \<or> (\<exists>m. fx = [Prompt prompt_text, Alert m])"
  by (auto simp: initialize_def split: option.splits if_splits)

lemma main_unfold:
  "initialize e st = (st', fx, True) \<Longrightarrow>
     outcome (main e st) = outcome (walk e st') \<and> trace (main e st) = fx @ trace (walk e st')
     \<and> store (main e st) = store (walk e st')"
  by (simp add: main_def Let_def)

lemma main_halt:
  "initialize e st = (st', fx, False) \<Longrightarrow> main e st = \<lparr>store = st', trace = fx, outcome = Halted\<rparr>"
  by (simp add: main_def)

section \<open>The item under the cursor\<close>

text \<open>
  C1. With the worklist \<open>W\<close> and the cursor \<open>c\<close> in the storage, the lookup of lines 40 to 49 gives
  \<open>W ! c\<close> when \<open>c < length W\<close>, and the run is then the handling of that item at that cursor;
  when \<open>c \<ge> length W\<close> it gives \<open>Done\<close>, and the run ends as completed.
\<close>

theorem currentItem_in_range_or_done:
  assumes "epel9_rpm_packages st = Some W" and "epel9_rpm_index st = Some c"
  shows "(c < length W \<longrightarrow> currentItem W (Some c) = Item (W ! c) \<and> main e st = process e st c (W ! c)) \<and>
         (length W \<le> c \<longrightarrow> currentItem W (Some c) = Done \<and> outcome (main e st) = Completed)"
  using assms by (simp add: main_persisted walk_in_range walk_done currentItem_def)

theorem currentItem_in_range_or_done_witness:
  "currentItem [''nano'', ''vim''] (Some 1) = Item ''vim'' \<and>
   main listing_n (stored [''nano'', ''vim''] 1) = process listing_n (stored [''nano'', ''vim''] 1) 1 ''vim'' \<and>
   currentItem [''nano'', ''vim''] (Some 2) = Done \<and>
   outcome (main listing_n (stored [''nano'', ''vim''] 2)) = Completed"
  using currentItem_in_range_or_done [of "stored [''nano'', ''vim''] 1" "[''nano'', ''vim'']" 1 listing_n]
        currentItem_in_range_or_done [of "stored [''nano'', ''vim''] 2" "[''nano'', ''vim'']" 2 listing_n]
  by (simp add: stored_def)

section \<open>The cursor\<close>

text \<open>
  C2. With the worklist \<open>W\<close> and the cursor \<open>c\<close> in the storage, a run that handles the item
  (its target found and downloaded, or not found) has \<open>c\<close> in range and leaves the cursor
  \<open>c + 1\<close> and the worklist as it was; and whatever the run does, a cursor it leaves in the
  storage is not below \<open>c\<close>.
\<close>

theorem cursor_advances_by_one:
  assumes "epel9_rpm_packages st = Some W" and "epel9_rpm_index st = Some c"
  shows "(outcome (main e st) \<in> {Fetched, NotFound} \<longrightarrow>
            c < length W \<and> epel9_rpm_index (store (main e st)) = Some (c + 1) \<and>
            epel9_rpm_packages (store (main e st)) = Some W) \<and>
         (\<forall>c'. epel9_rpm_index (store (main e st)) = Some c' \<longrightarrow> c \<le> c')"
proof (cases "c < length W")
  case True
  then have m: "main e st = process e st c (W ! c)"
    using assms by (simp add: main_persisted walk_in_range)
  have "store (process e st c (W ! c)) = st \<or>
        store (process e st c (W ! c)) = st\<lparr>epel9_rpm_index := Some (c + 1)\<rparr>"
    by (rule process_store_cases)
  then have mono: "\<forall>c'. epel9_rpm_index (store (main e st)) = Some c' \<longrightarrow> c \<le> c'"
    using assms m by auto
  show ?thesis
    using True m mono assms process_outcome_cases [of e st c "W ! c"] by auto
next
  case False
  then have "main e st = \<lparr>store = st\<lparr>epel9_rpm_packages := None, epel9_rpm_index := None\<rparr>,
                 trace = [Alert ''All packages processed!''], outcome = Completed\<rparr>"
    using assms by (simp add: main_persisted walk_done)
  then show ?thesis by simp
qed

theorem cursor_advances_by_one_witness:
  "outcome (main listing_n (stored [''nano'', ''vim''] 0)) = Fetched \<and>
   epel9_rpm_index (store (main listing_n (stored [''nano'', ''vim''] 0))) = Some 1 \<and>
   outcome (main listing_z (stored [''zzznotreal''] 0)) = NotFound \<and>
   epel9_rpm_index (store (main listing_z (stored [''zzznotreal''] 0))) = Some 1"
proof -
  have f: "outcome (main listing_n (stored [''nano'', ''vim''] 0)) = Fetched"
    by code_simp
  have n: "outcome (main listing_z (stored [''zzznotreal''] 0)) = NotFound"
    by code_simp
  show ?thesis
    using f n
      cursor_advances_by_one [of "stored [''nano'', ''vim''] 0" "[''nano'', ''vim'']" 0 listing_n]
      cursor_advances_by_one [of "stored [''zzznotreal''] 0" "[''zzznotreal'']" 0 listing_z]
    by (simp add: stored_def)
qed

section \<open>The pause before the reload\<close>

text \<open>
  C3, as stated (a pause before the reload in both outcomes), fails: the run that does not find
  the target of \<open>zzznotreal\<close> in its folder warns and reloads at once.
\<close>

theorem pause_before_every_reload_counterexample:
  "outcome (main listing_z (stored [''zzznotreal''] 0)) = NotFound \<and>
   trace (main listing_z (stored [''zzznotreal''] 0)) =
     [ConsoleWarn (''No RPM found for package '' @ [dquote] @ ''zzznotreal'' @ [dquote]), Reload] \<and>
   filter is_Sleep (trace (main listing_z (stored [''zzznotreal''] 0))) = []"
  by code_simp

text \<open>
  C3, amended. A run that downloads ends with one pause of 3000 ms and then the reload; a run
  that does not find the target ends with the reload and has no pause; any other run neither
  pauses nor reloads.
\<close>

theorem pause_only_after_download:
  "(outcome (main e st) = Fetched \<longrightarrow>
      (\<exists>pre. trace (main e st) = pre @ [Sleep 3000, Reload] \<and> filter is_Sleep pre = [] \<and> Reload \<notin> set pre)) \<and>
   (outcome (main e st) = NotFound \<longrightarrow>
      (\<exists>pre. trace (main e st) = pre @ [Reload] \<and> filter is_Sleep pre = [] \<and> Reload \<notin> set pre)) \<and>
   (outcome (main e st) \<notin> {Fetched, NotFound} \<longrightarrow>
      Reload \<notin> set (trace (main e st)) \<and> filter is_Sleep (trace (main e st)) = [])"
proof -
  obtain st' fx go where i: "initialize e st = (st', fx, go)"
    by (cases "initialize e st") auto
  have fx: "fx = [] \<or> (\<exists>m. fx = [Prompt prompt_text, Alert m])"
    using i by (rule initialize_trace)
  show ?thesis
  proof (cases go)
    case False
    then have "main e st = \<lparr>store = st', trace = fx, outcome = Halted\<rparr>"
      using i by (simp add: main_halt)
    then show ?thesis using fx by auto
  next
    case True
    then have m: "outcome (main e st) = outcome (walk e st')" "trace (main e st) = fx @ trace (walk e st')"
      using i main_unfold by auto
    show ?thesis
      using walk_trace_cases [of e st'] fx unfolding m by (elim disjE) auto
  qed
qed

theorem pause_only_after_download_witness:
  "(\<exists>pre. trace (main listing_n (stored [''nano'', ''vim''] 0)) = pre @ [Sleep 3000, Reload]
          \<and> filter is_Sleep pre = [] \<and> Reload \<notin> set pre) \<and>
   (\<exists>pre. trace (main listing_z (stored [''zzznotreal''] 0)) = pre @ [Reload]
          \<and> filter is_Sleep pre = [] \<and> Reload \<notin> set pre) \<and>
   Reload \<notin> set (trace (main listing_z (stored [''nano'', ''vim''] 0))) \<and>
   filter is_Sleep (trace (main listing_z (stored [''nano'', ''vim''] 0))) = []"
proof -
  have f: "outcome (main listing_n (stored [''nano'', ''vim''] 0)) = Fetched"
    by code_simp
  have n: "outcome (main listing_z (stored [''zzznotreal''] 0)) = NotFound"
    by code_simp
  have g: "outcome (main listing_z (stored [''nano'', ''vim''] 0)) = Navigating"
    by code_simp
  show ?thesis
    using f n g
      pause_only_after_download [of listing_n "stored [''nano'', ''vim''] 0"]
      pause_only_after_download [of listing_z "stored [''zzznotreal''] 0"]
      pause_only_after_download [of listing_z "stored [''nano'', ''vim''] 0"]
    by simp
qed

section \<open>The download\<close>

lemma matchedLinks_first:
  assumes "l \<noteq> []" and "t l"
    and "\<forall>a\<in>set before. case a of None \<Rightarrow> True | Some x \<Rightarrow> x = [] \<or> \<not> t x"
  shows "matchedLinks t (before @ Some l # after) = l # matchedLinks t after"
proof -
  have "filter (\<lambda>h. case h of None \<Rightarrow> False | Some l \<Rightarrow> l \<noteq> [] \<and> t l) before = []"
    using assms(3) by (auto simp: filter_empty_conv split: option.splits)
  then show ?thesis using assms(1,2) by (simp add: matchedLinks_def)
qed

lemma process_fetch:
  assumes "pkg = ch # rest"
    and "startsWith (pathname e) (expectedPath ch)"
    and "RegExp (RegExp_other e) (pattern pkg) = Inr t"
    and "matchedLinks t (anchors e) = l # ls"
  shows "process e st c pkg =
           \<lparr>store = st\<lparr>epel9_rpm_index := Some (c + 1)\<rparr>,
            trace = [ConsoleLog (''Downloading: '' @ href e @ l), Download (href e @ l), Sleep 3000, Reload],
            outcome = Fetched\<rparr>"
  using assms by (simp add: process_def)

text \<open>
  C5. When the cursor is on an item whose folder is open and whose pattern compiles, and \<open>l\<close> is the
  first \<open>href\<close> of the listing, in document order, that is not empty and passes the test, the run
  downloads once, \<open>l\<close> and nothing else, however many later links pass; and every run on the same
  item and the same listing downloads the same \<open>l\<close>.
\<close>

theorem first_match_downloaded_once:
  assumes "epel9_rpm_packages st = Some W" and "epel9_rpm_index st = Some c" and "c < length W"
    and "W ! c = ch # rest"
    and "startsWith (pathname e) (expectedPath ch)"
    and "RegExp (RegExp_other e) (pattern (W ! c)) = Inr t"
    and "anchors e = before @ Some l # after"
    and "l \<noteq> []" and "t l"
    and "\<forall>a\<in>set before. case a of None \<Rightarrow> True | Some x \<Rightarrow> x = [] \<or> \<not> t x"
  shows "outcome (main e st) = Fetched \<and>
         filter is_Download (trace (main e st)) = [Download (href e @ l)] \<and>
         (\<forall>e' st' W' c'.
            epel9_rpm_packages st' = Some W' \<and> epel9_rpm_index st' = Some c' \<and> c' < length W' \<and>
            W' ! c' = W ! c \<and> startsWith (pathname e') (expectedPath ch) \<and>
            RegExp_other e' = RegExp_other e \<and> anchors e' = anchors e
            \<longrightarrow> filter is_Download (trace (main e' st')) = [Download (href e' @ l)])"
proof -
  have first: "matchedLinks t (anchors e) = l # matchedLinks t after"
    using assms(7-10) by (simp add: matchedLinks_first)
  have one: "main e' st' = process e' st' c' (W ! c) \<and>
             process e' st' c' (W ! c) =
               \<lparr>store = st'\<lparr>epel9_rpm_index := Some (c' + 1)\<rparr>,
                trace = [ConsoleLog (''Downloading: '' @ href e' @ l), Download (href e' @ l), Sleep 3000, Reload],
                outcome = Fetched\<rparr>"
    if "epel9_rpm_packages st' = Some W'" "epel9_rpm_index st' = Some c'" "c' < length W'"
       "W' ! c' = W ! c" "startsWith (pathname e') (expectedPath ch)"
       "RegExp_other e' = RegExp_other e" "anchors e' = anchors e"
    for e' st' W' c'
  proof -
    have "main e' st' = process e' st' c' (W ! c)"
      using that by (simp add: main_persisted walk_in_range)
    moreover have "process e' st' c' (W ! c) =
               \<lparr>store = st'\<lparr>epel9_rpm_index := Some (c' + 1)\<rparr>,
                trace = [ConsoleLog (''Downloading: '' @ href e' @ l), Download (href e' @ l), Sleep 3000, Reload],
                outcome = Fetched\<rparr>"
      using assms(4,6) that(5,6,7) first by (intro process_fetch) simp_all
    ultimately show ?thesis by simp
  qed
  have here: "outcome (main e st) = Fetched \<and> filter is_Download (trace (main e st)) = [Download (href e @ l)]"
    using one [of st W c e] assms(1-3,5) by simp
  have there: "filter is_Download (trace (main e' st')) = [Download (href e' @ l)]"
    if "epel9_rpm_packages st' = Some W' \<and> epel9_rpm_index st' = Some c' \<and> c' < length W' \<and>
            W' ! c' = W ! c \<and> startsWith (pathname e') (expectedPath ch) \<and>
            RegExp_other e' = RegExp_other e \<and> anchors e' = anchors e" for e' st' W' c'
    using one [of st' W' c' e'] that by simp
  show ?thesis using here there by blast
qed

theorem first_match_downloaded_once_witness:
  "outcome (main listing_n (stored [''nano'', ''vim''] 0)) = Fetched \<and>
   filter is_Download (trace (main listing_n (stored [''nano'', ''vim''] 0))) =
     [Download (href listing_n @ ''nano-6.2-1.el9.x86_64.rpm'')]"
proof -
  have s: "scan (Top NoAtom) [] (pattern ''nano'') = Parsed nano_terms"
    by code_simp
  have r: "RegExp (RegExp_other listing_n) (pattern ([''nano'', ''vim''] ! 0)) = Inr (test nano_terms)"
    by (simp add: RegExp_def s)
  have p: "startsWith (pathname listing_n) (expectedPath (CHR ''n''))"
    by code_simp
  have a: "anchors listing_n = [None, Some ''../''] @ Some ''nano-6.2-1.el9.x86_64.rpm'' # [Some ''nano-doc-6.2-1.el9.rpm'']"
    by (simp add: listing_n_def)
  have t: "test nano_terms ''nano-6.2-1.el9.x86_64.rpm''"
    by code_simp
  have b: "\<forall>a\<in>set [None, Some ''../'']. case a of None \<Rightarrow> True | Some x \<Rightarrow> x = [] \<or> \<not> test nano_terms x"
    by code_simp
  show ?thesis
    using first_match_downloaded_once [of "stored [''nano'', ''vim''] 0" "[''nano'', ''vim'']" 0 "CHR ''n''" "''ano''"
            listing_n "test nano_terms" "[None, Some ''../'']" "''nano-6.2-1.el9.x86_64.rpm''" "[Some ''nano-doc-6.2-1.el9.rpm'']", OF _ _ _ _ p r a _ t b]
    by (simp add: stored_def)
qed

section \<open>The input\<close>

lemma split_nonempty: "split sep s \<noteq> []"
  by (induction s) (auto split: list.splits)

lemma join_Cons: "ys \<noteq> [] \<Longrightarrow> join sep (x # ys) = x @ sep @ join sep ys"
  by (cases ys) auto

text \<open>\<open>split\<close> cuts at the separators and nowhere else: joining the tokens gives the text
  back, and no token holds a separator.\<close>

lemma join_split: "join [sep] (split sep s) = s"
proof (induction s)
  case Nil
  show ?case by simp
next
  case (Cons c cs)
  show ?case
  proof (cases "c = sep")
    case True
    then show ?thesis using Cons by (simp add: join_Cons split_nonempty)
  next
    case False
    obtain t ts where ts: "split sep cs = t # ts"
      using split_nonempty [of sep cs] by (cases "split sep cs") auto
    have "join [sep] ((c # t) # ts) = c # join [sep] (t # ts)"
      by (cases ts) auto
    then show ?thesis using False ts Cons by simp
  qed
qed

lemma split_tokens: "t \<in> set (split sep s) \<Longrightarrow> sep \<notin> set t"
proof (induction s arbitrary: t)
  case Nil
  then show ?case by simp
next
  case (Cons c cs)
  show ?case
  proof (cases "c = sep")
    case True
    then show ?thesis using Cons by auto
  next
    case False
    obtain u us where us: "split sep cs = u # us"
      using split_nonempty [of sep cs] by (cases "split sep cs") auto
    then have "t = c # u \<or> t \<in> set us"
      using Cons.prems False by auto
    then show ?thesis
      using Cons.IH [of u] Cons.IH [of t] us False by auto
  qed
qed

text \<open>\<open>trim\<close> takes white space off both ends and nothing else.\<close>

lemma trim_decompose:
  "\<exists>a b. s = a @ trim s @ b \<and> list_all isWhiteSpace a \<and> list_all isWhiteSpace b"
proof -
  let ?d = "dropWhile isWhiteSpace s"
  have "rev (rev ?d) = rev (takeWhile isWhiteSpace (rev ?d) @ dropWhile isWhiteSpace (rev ?d))"
    by (simp only: takeWhile_dropWhile_id)
  then have "?d = trim s @ rev (takeWhile isWhiteSpace (rev ?d))"
    by (simp only: rev_append rev_rev_ident trim_def)
  then have "s = takeWhile isWhiteSpace s @ trim s @ rev (takeWhile isWhiteSpace (rev ?d))"
    by (metis takeWhile_dropWhile_id)
  moreover have "list_all isWhiteSpace (takeWhile isWhiteSpace s)"
    by (auto simp: list_all_iff dest: set_takeWhileD)
  moreover have "list_all isWhiteSpace (rev (takeWhile isWhiteSpace (rev ?d)))"
    by (auto simp: list_all_iff dest: set_takeWhileD)
  ultimately show ?thesis by blast
qed

lemma last_dropWhile: "dropWhile P xs \<noteq> [] \<Longrightarrow> last (dropWhile P xs) = last xs"
  by (induction xs) (auto split: if_splits)

lemma trim_ends:
  assumes "trim s \<noteq> []"
  shows "\<not> isWhiteSpace (hd (trim s)) \<and> \<not> isWhiteSpace (last (trim s))"
proof -
  let ?d = "dropWhile isWhiteSpace s"
  let ?r = "dropWhile isWhiteSpace (rev ?d)"
  have r: "?r \<noteq> []" using assms by (simp add: trim_def)
  then have l: "\<not> isWhiteSpace (hd ?r)" by (rule hd_dropWhile)
  have la: "last (trim s) = hd ?r" using r by (simp add: trim_def last_rev)
  have "rev ?d \<noteq> []" using r by (metis dropWhile.simps(1))
  then have d: "?d \<noteq> []" by simp
  then have h: "\<not> isWhiteSpace (hd ?d)" by (rule hd_dropWhile)
  have "hd (trim s) = last ?r" using r by (simp add: trim_def hd_rev)
  also have "\<dots> = last (rev ?d)" using r by (rule last_dropWhile)
  also have "\<dots> = hd ?d" using d by (simp add: last_rev)
  finally show ?thesis using h l la by simp
qed

lemma pkgs_items:
  assumes "p \<in> set (pkgs input)"
  shows "p \<noteq> [] \<and> CHR '','' \<notin> set p \<and> \<not> isWhiteSpace (hd p) \<and> \<not> isWhiteSpace (last p)"
proof -
  obtain t where t: "t \<in> set (split (CHR '','') input)" "p = trim t" "p \<noteq> []"
    using assms by (auto simp: pkgs_def)
  obtain a b where "t = a @ trim t @ b"
    using trim_decompose [of t] by blast
  then have "set (trim t) \<subseteq> set t"
    by (metis Un_upper1 Un_upper2 set_append subset_trans)
  then have "CHR '','' \<notin> set p"
    using split_tokens [OF t(1)] t(2) by auto
  then show ?thesis using t trim_ends [of t] by simp
qed

lemma pkgs_empty_input: "pkgs [] = []"
  by (simp add: pkgs_def trim_def)

text \<open>
  C6. Without a stored worklist the run prompts. The items are the tokens between the commas,
  trimmed, without the empty ones, in order. When the prompt is cancelled or gives no item (the
  empty answer included), the run alerts once, halts, and leaves the storage as it was; otherwise
  lines 34 and 35 store the items and the cursor 0.
\<close>

theorem no_items_halts_unchanged:
  assumes "epel9_rpm_packages st = None"
  shows "(\<forall>input. pkgs input = filter (\<lambda>p. p \<noteq> []) (map trim (split (CHR '','') input))) \<and>
         ((case prompt_reply e of None \<Rightarrow> True | Some input \<Rightarrow> pkgs input = []) \<longrightarrow>
            store (main e st) = st \<and> outcome (main e st) = Halted \<and>
            (\<exists>m. trace (main e st) = [Prompt prompt_text, Alert m])) \<and>
         (\<forall>input. prompt_reply e = Some input \<and> pkgs input \<noteq> [] \<longrightarrow>
            fst (initialize e st) = st\<lparr>epel9_rpm_packages := Some (pkgs input), epel9_rpm_index := Some 0\<rparr> \<and>
            outcome (main e st) \<noteq> Halted)"
proof -
  have halt: "store (main e st) = st \<and> outcome (main e st) = Halted \<and>
            (\<exists>m. trace (main e st) = [Prompt prompt_text, Alert m])"
    if "case prompt_reply e of None \<Rightarrow> True | Some input \<Rightarrow> pkgs input = []"
    using that assms by (auto simp: main_def initialize_def split: option.splits)
  have go: "fst (initialize e st) = st\<lparr>epel9_rpm_packages := Some (pkgs input), epel9_rpm_index := Some 0\<rparr> \<and>
            outcome (main e st) \<noteq> Halted"
    if "prompt_reply e = Some input \<and> pkgs input \<noteq> []" for input
  proof -
    have "input \<noteq> []" using that pkgs_empty_input by auto
    then have i: "initialize e st =
        (st\<lparr>epel9_rpm_packages := Some (pkgs input), epel9_rpm_index := Some 0\<rparr>,
         [Prompt prompt_text, Alert (''Starting download of '' @ toString (length (pkgs input)) @ '' packages...'')],
         True)"
      using that assms by (simp add: initialize_def)
    have "outcome (main e st) = outcome (walk e (st\<lparr>epel9_rpm_packages := Some (pkgs input), epel9_rpm_index := Some 0\<rparr>))"
      using main_unfold [OF i] by simp
    then show ?thesis using i walk_trace_cases [of e "st\<lparr>epel9_rpm_packages := Some (pkgs input), epel9_rpm_index := Some 0\<rparr>"]
      by auto
  qed
  have eq: "\<forall>input. pkgs input = filter (\<lambda>p. p \<noteq> []) (map trim (split (CHR '','') input))"
    by (simp add: pkgs_def)
  show ?thesis using halt go eq by blast
qed

theorem no_items_halts_unchanged_witness:
  "pkgs '' , ,'' = [] \<and>
   store (main (listing_z\<lparr>prompt_reply := Some '' , ,''\<rparr>) no_entries) = no_entries \<and>
   outcome (main (listing_z\<lparr>prompt_reply := Some '' , ,''\<rparr>) no_entries) = Halted \<and>
   pkgs ''nano, vim'' = [''nano'', ''vim''] \<and>
   fst (initialize listing_z no_entries) = stored [''nano'', ''vim''] 0"
proof -
  have a: "epel9_rpm_packages no_entries = None" by (simp add: no_entries_def)
  have b: "pkgs '' , ,'' = []" by code_simp
  have c: "pkgs ''nano, vim'' = [''nano'', ''vim'']" by code_simp
  have d: "prompt_reply listing_z = Some ''nano, vim''" by (simp add: listing_z_def)
  show ?thesis
    using no_items_halts_unchanged [OF a, of "listing_z\<lparr>prompt_reply := Some '' , ,''\<rparr>"]
          no_items_halts_unchanged [OF a, of listing_z] b c d
    by (simp add: stored_def no_entries_def)
qed

section \<open>Navigation\<close>

lemma initialize_no_download:
  "initialize e st = (st', fx, go) \<Longrightarrow> filter is_Download fx = []"
  by (auto simp: initialize_def split: option.splits if_splits)

lemma initialize_persisted:
  "epel9_rpm_packages st \<noteq> None \<Longrightarrow> initialize e st = (st, [], True)"
  by (auto simp: initialize_def)

text \<open>
  C7. When the run reaches the item under the cursor (with the worklist either stored before or
  stored by this run's prompt) and the page is not in the folder of the item's first letter, the
  run logs, sets the location to that folder and ends: the worklist and the cursor stay as they
  were when the item was looked up, and nothing is downloaded. With a worklist stored before the
  run, the storage after the run is the storage before it.
\<close>

theorem wrong_folder_navigates:
  assumes "initialize e st = (st', fx, True)"
    and "epel9_rpm_packages st' = Some W" and "epel9_rpm_index st' = Some c" and "c < length W"
    and "W ! c = ch # rest"
    and "\<not> startsWith (pathname e) (expectedPath ch)"
  shows "main e st =
           \<lparr>store = st',
            trace = fx @ [ConsoleLog (''Navigating to directory for package '' @ [dquote] @ W ! c @ [dquote] @ ''...''),
                          Navigate (fullUrl ch)],
            outcome = Navigating\<rparr> \<and>
         filter is_Download (trace (main e st)) = [] \<and>
         (epel9_rpm_packages st \<noteq> None \<longrightarrow> store (main e st) = st)"
proof -
  have w: "walk e st' =
           \<lparr>store = st',
            trace = [ConsoleLog (''Navigating to directory for package '' @ [dquote] @ W ! c @ [dquote] @ ''...''),
                     Navigate (fullUrl ch)],
            outcome = Navigating\<rparr>"
    using assms(2-6) by (simp add: walk_in_range process_def)
  have m: "main e st =
           \<lparr>store = st',
            trace = fx @ [ConsoleLog (''Navigating to directory for package '' @ [dquote] @ W ! c @ [dquote] @ ''...''),
                          Navigate (fullUrl ch)],
            outcome = Navigating\<rparr>"
    using assms(1) w by (simp add: main_def)
  have "filter is_Download fx = []"
    using assms(1) by (rule initialize_no_download)
  then have d: "filter is_Download (trace (main e st)) = []"
    using m by simp
  have "epel9_rpm_packages st \<noteq> None \<longrightarrow> st' = st"
    using assms(1) initialize_persisted [of st e] by auto
  then show ?thesis using m d by simp
qed

theorem wrong_folder_navigates_witness:
  "main listing_z (stored [''nano'', ''vim''] 0) =
     \<lparr>store = stored [''nano'', ''vim''] 0,
      trace = [ConsoleLog (''Navigating to directory for package '' @ [dquote] @ ''nano'' @ [dquote] @ ''...''),
               Navigate (fullUrl (CHR ''n''))],
      outcome = Navigating\<rparr> \<and>
   store (main listing_z no_entries) = stored [''nano'', ''vim''] 0 \<and>
   outcome (main listing_z no_entries) = Navigating"
proof -
  have i1: "initialize listing_z (stored [''nano'', ''vim''] 0) = (stored [''nano'', ''vim''] 0, [], True)"
    by (simp add: initialize_def stored_def)
  have i2: "initialize listing_z no_entries =
      (stored [''nano'', ''vim''] 0,
       [Prompt prompt_text, Alert (''Starting download of '' @ toString (length (pkgs ''nano, vim'')) @ '' packages...'')],
       True)"
    by code_simp
  have p: "\<not> startsWith (pathname listing_z) (expectedPath (CHR ''n''))"
    by code_simp
  show ?thesis
    using wrong_folder_navigates [OF i1 _ _ _ _ p, of "[''nano'', ''vim'']" 0 "''ano''"]
          wrong_folder_navigates [OF i2 _ _ _ _ p, of "[''nano'', ''vim'']" 0 "''ano''"]
    by (simp add: stored_def)
qed

section \<open>Completion\<close>

text \<open>
  C8. With the cursor at or past the end of the stored worklist the run alerts once that all
  packages are processed, removes both entries, and does nothing else: no navigation, no
  download, no reload. The storage it leaves has neither entry, whatever the worklist and the
  cursor were, and removing the two entries from it again changes nothing.
\<close>

theorem done_clears_both_entries:
  assumes "epel9_rpm_packages st = Some W" and "epel9_rpm_index st = Some c" and "length W \<le> c"
  shows "main e st = \<lparr>store = no_entries, trace = [Alert ''All packages processed!''], outcome = Completed\<rparr> \<and>
         (store (main e st))\<lparr>epel9_rpm_packages := None, epel9_rpm_index := None\<rparr> = store (main e st)"
proof -
  have "st\<lparr>epel9_rpm_packages := None, epel9_rpm_index := None\<rparr> = no_entries"
    by (cases st) (simp add: no_entries_def)
  then have "main e st = \<lparr>store = no_entries, trace = [Alert ''All packages processed!''], outcome = Completed\<rparr>"
    using assms by (simp add: main_persisted walk_done)
  then show ?thesis by (simp add: no_entries_def)
qed

theorem done_clears_both_entries_witness:
  "main listing_n (stored [''nano'', ''vim''] 2) =
     \<lparr>store = no_entries, trace = [Alert ''All packages processed!''], outcome = Completed\<rparr>"
  using done_clears_both_entries [of "stored [''nano'', ''vim''] 2" "[''nano'', ''vim'']" 2 listing_n]
  by (simp add: stored_def)

section \<open>Items are never empty\<close>

lemma initialize_ok:
  assumes "storage_ok st" and "initialize e st = (st', fx, go)"
  shows "storage_ok st' \<and> (go \<longrightarrow> epel9_rpm_packages st' \<noteq> None)"
proof (cases "epel9_rpm_packages st")
  case (Some W)
  then show ?thesis using assms by (auto simp: initialize_def)
next
  case None
  have "list_all (\<lambda>p. p \<noteq> []) (pkgs input)" for input
    by (simp add: pkgs_def list_all_iff)
  then show ?thesis
    using assms None by (auto simp: initialize_def storage_ok_def split: option.splits if_splits)
qed

lemma walk_ok:
  assumes "storage_ok st" and "epel9_rpm_packages st \<noteq> None"
  shows "storage_ok (store (walk e st)) \<and> outcome (walk e st) \<noteq> Threw TypeError"
proof -
  obtain W c where W: "epel9_rpm_packages st = Some W" "epel9_rpm_index st = Some c"
    "list_all (\<lambda>p. p \<noteq> []) W"
    using assms by (auto simp: storage_ok_def split: option.splits)
  show ?thesis
  proof (cases "c < length W")
    case False
    then show ?thesis using W by (simp add: walk_done storage_ok_def)
  next
    case True
    then have w: "walk e st = process e st c (W ! c)"
      using W by (simp add: walk_in_range)
    have ne: "W ! c \<noteq> []"
      using True W(3) by (simp add: list_all_length)
    have "storage_ok (st\<lparr>epel9_rpm_index := Some (c + 1)\<rparr>)"
      using assms(1) W by (simp add: storage_ok_def)
    then have ok: "storage_ok (store (process e st c (W ! c)))"
      using process_store_cases [of e st c "W ! c"] assms(1) by auto
    have "outcome (process e st c (W ! c)) \<noteq> Threw TypeError"
      using ne by (auto simp: process_def RegExp_def split: list.splits sum.splits parsed.splits option.splits)
    then show ?thesis using w ok by simp
  qed
qed

lemma main_ok:
  assumes "storage_ok st"
  shows "storage_ok (store (main e st)) \<and> outcome (main e st) \<noteq> Threw TypeError"
proof -
  obtain st' fx go where i: "initialize e st = (st', fx, go)"
    by (cases "initialize e st") auto
  have ok: "storage_ok st'" "go \<longrightarrow> epel9_rpm_packages st' \<noteq> None"
    using initialize_ok [OF assms i] by auto
  show ?thesis
  proof (cases go)
    case False
    then show ?thesis using i ok by (simp add: main_halt)
  next
    case True
    then show ?thesis
      using main_unfold [of e st st' fx] i walk_ok [of st' e] ok by simp
  qed
qed

lemma reachable_ok: "reachable st \<Longrightarrow> storage_ok st"
proof (induction rule: reachable.induct)
  case fresh
  show ?case by (simp add: storage_ok_def)
next
  case (run st e)
  then show ?case by (simp add: main_ok)
qed

text \<open>
  C10. In every storage the script can reach from a session with neither entry, every item of
  the stored worklist is a non-empty string, so the first character of the item under an
  in-range cursor exists, and no run from such a storage throws a \<open>TypeError\<close>.
\<close>

theorem stored_items_nonempty:
  assumes "reachable st"
  shows "(\<forall>W c. epel9_rpm_packages st = Some W \<and> c < length W \<longrightarrow> W ! c \<noteq> []) \<and>
         (\<forall>e. outcome (main e st) \<noteq> Threw TypeError)"
proof -
  have ok: "storage_ok st" using assms by (rule reachable_ok)
  then have "\<forall>W c. epel9_rpm_packages st = Some W \<and> c < length W \<longrightarrow> W ! c \<noteq> []"
    by (auto simp: storage_ok_def list_all_length)
  then show ?thesis using main_ok [OF ok] by blast
qed

theorem stored_items_nonempty_witness:
  "reachable (stored [''nano'', ''vim''] 0) \<and>
   [''nano'', ''vim''] ! 1 \<noteq> [] \<and>
   outcome (main listing_n (stored [''nano'', ''vim''] 0)) \<noteq> Threw TypeError"
proof -
  have "store (main listing_z no_entries) = stored [''nano'', ''vim''] 0"
    by code_simp
  then have r: "reachable (stored [''nano'', ''vim''] 0)"
    using reachable.run [OF reachable.fresh, of listing_z] by (simp add: no_entries_def)
  show ?thesis
    using r stored_items_nonempty [OF r] by (simp add: stored_def)
qed

section \<open>The table export\<close>

lemma update_fresh: "k \<notin> fst ` set al \<Longrightarrow> AList.update k v al = al @ [(k, v)]"
  by (induction al) auto

lemma fold_update_distinct:
  "distinct (map fst (acc @ es)) \<Longrightarrow>
     fold (\<lambda>(k, v) obj. AList.update k v obj) es acc = acc @ es"
proof (induction es arbitrary: acc)
  case Nil
  show ?case by simp
next
  case (Cons x es)
  obtain k v where x: "x = (k, v)" by (cases x)
  have fresh: "k \<notin> fst ` set acc" using Cons.prems x by auto
  have "distinct (map fst ((acc @ [(k, v)]) @ es))" using Cons.prems x by auto
  then have "fold (\<lambda>(k, v) obj. AList.update k v obj) es (acc @ [(k, v)]) = (acc @ [(k, v)]) @ es"
    by (rule Cons.IH)
  then show ?case using x fresh by (simp add: update_fresh)
qed

lemma fromEntries_distinct: "distinct (map fst es) \<Longrightarrow> fromEntries es = es"
  using fold_update_distinct [of "[]" es] by (simp add: fromEntries_def)

lemma entries_zip:
  "length cells \<le> length hs \<Longrightarrow>
     map (\<lambda>(i, cell). (header_key hs i, cell)) (enumerate 0 cells) = zip hs cells"
  by (rule nth_equalityI) (auto simp: nth_enumerate_eq header_key_def)

text \<open>On a row as wide as the distinct headers the object is the headers paired with the cells.\<close>

lemma row_object_aligned:
  assumes "distinct hs" and "length tds = Suc (length hs)"
  shows "row_object hs tds = zip hs (drop 1 (map trim tds))"
proof -
  have len: "length (drop 1 (map trim tds)) = length hs" using assms(2) by simp
  then have "distinct (map fst (zip hs (drop 1 (map trim tds))))"
    using assms(1) by (simp add: map_fst_zip)
  then show ?thesis
    using len by (simp add: row_object_def entries_zip fromEntries_distinct)
qed

lemma lookup_aligned:
  assumes "distinct hs" and "length cells = length hs"
  shows "map (\<lambda>h. map_of (zip hs cells) h) hs = map Some cells"
  using assms by (intro nth_equalityI) (auto simp: map_of_zip_nth)

lemma cell_text_aligned:
  assumes "distinct hs" and "length cells = length hs"
  shows "map (cell_text proto (zip hs cells)) hs = cells"
proof -
  have "map (cell_text proto (zip hs cells)) hs =
        map (\<lambda>x. case x of Some v \<Rightarrow> v | None \<Rightarrow> []) (map (\<lambda>h. map_of (zip hs cells) h) hs)"
    using assms by (intro nth_equalityI) (auto simp: cell_text_def map_of_zip_nth)
  also have "\<dots> = cells"
    using lookup_aligned [OF assms] by (simp add: comp_def map_idI)
  finally show ?thesis .
qed

lemma spec_row_line_aligned:
  assumes "distinct hs" and "length cells = length hs"
  shows "spec_row_line hs cells = join '','' cells"
proof -
  have "map (\<lambda>h. case spec_row_map hs cells h of None \<Rightarrow> [] | Some v \<Rightarrow> v) hs =
        map (\<lambda>x. case x of None \<Rightarrow> [] | Some v \<Rightarrow> v) (map (\<lambda>h. map_of (zip hs cells) h) hs)"
    by (simp add: spec_row_map_def comp_def)
  also have "\<dots> = cells"
    using lookup_aligned [OF assms] by (simp add: comp_def map_idI)
  finally show ?thesis by (simp add: spec_row_line_def)
qed

lemma spec_row_empty_aligned:
  assumes "distinct hs" and "length cells = length hs"
  shows "spec_row_empty hs cells = (\<not> list_ex (\<lambda>val. val \<noteq> []) cells)"
proof -
  have "spec_row_empty hs cells = list_all (\<lambda>x. x \<in> {None, Some []}) (map (\<lambda>h. map_of (zip hs cells) h) hs)"
    by (simp add: spec_row_empty_def spec_row_map_def list_all_iff)
  also have "\<dots> = list_all (\<lambda>x. x \<in> {None, Some []}) (map Some cells)"
    using lookup_aligned [OF assms] by simp
  also have "\<dots> = (\<not> list_ex (\<lambda>val. val \<noteq> []) cells)"
    by (auto simp: list_all_iff list_ex_iff)
  finally show ?thesis .
qed

lemma lines_aligned:
  assumes "distinct hs" and "\<forall>r\<in>set rows. length r = Suc (length hs)"
  shows "map (\<lambda>row. join '','' (map (cell_text proto row) hs)) (data hs rows) =
         map (spec_row_line hs) (filter (\<lambda>r. \<not> spec_row_empty hs r) (map (drop 1) (map (map trim) rows)))"
  using assms(2)
proof (induction rows)
  case Nil
  show ?case by (simp add: data_def)
next
  case (Cons r rows)
  let ?cells = "drop 1 (map trim r)"
  have len: "length ?cells = length hs" using Cons.prems by simp
  have obj: "row_object hs r = zip hs ?cells"
    using assms(1) Cons.prems by (simp add: row_object_aligned)
  have vals: "map snd (zip hs ?cells) = ?cells"
    using len by (simp add: map_snd_zip)
  have IH: "map (\<lambda>row. join '','' (map (cell_text proto row) hs)) (data hs rows) =
         map (spec_row_line hs) (filter (\<lambda>r. \<not> spec_row_empty hs r) (map (drop 1) (map (map trim) rows)))"
    using Cons by simp
  have d: "data hs (r # rows) =
        (if list_ex (\<lambda>val. val \<noteq> []) ?cells then zip hs ?cells # data hs rows else data hs rows)"
    using obj vals by (simp add: data_def)
  show ?case
    using IH len assms(1)
    by (simp add: d spec_row_empty_aligned spec_row_line_aligned cell_text_aligned del: drop_map)
qed

text \<open>
  C9, as stated for every grid, fails: with a header row whose first cell is not blank the first
  header stays, and the cells, shifted by one, stand under the wrong headers.
\<close>

theorem export_drops_first_column_counterexample:
  "csv_script page_with_id_column = [DownloadBlob ''data.csv'' ''text/csv'' (''Id,Name'' @ [newline] @ ''x,'')] \<and>
   spec_csv [''Id'', ''Name''] [[''1'', ''x'']] = ''Name'' @ [newline] @ ''x'' \<and>
   csv_script page_with_id_column \<noteq>
     [DownloadBlob ''data.csv'' ''text/csv'' (spec_csv [''Id'', ''Name''] [[''1'', ''x'']])]"
  by code_simp

text \<open>
  C9, amended. With both tables in the document the script does one thing: it offers the text
  \<open>csv\<close> as a download named \<open>data.csv\<close>. It drops the first cell of every body row and, from
  the header row, the blank cells. On a grid of trimmed cell texts whose first header cell is
  blank, whose other header cells are not blank and differ from each other, and whose body rows
  are as wide as the header row, that text is the one of the specification: the grid without its
  first column, without the rows that are empty throughout, the header line first and one line
  per remaining row, cells joined by commas and lines by line feeds.
\<close>

theorem export_on_aligned_grid:
  "csv_script \<lparr>headerTable = Some hcells, dataTable = Some rows, Object_prototype = proto\<rparr> =
     [DownloadBlob ''data.csv'' ''text/csv'' (csv proto hcells rows)] \<and>
   (grid_ok (map trim hcells) (map (map trim) rows) \<longrightarrow>
      csv proto hcells rows = spec_csv (map trim hcells) (map (map trim) rows))"
proof -
  have eq: "csv proto hcells rows = spec_csv (map trim hcells) (map (map trim) rows)"
    if ok: "grid_ok (map trim hcells) (map (map trim) rows)"
  proof (cases "map trim hcells")
    case Nil
    then have h: "hcells = []" by simp
    have e: "\<forall>r\<in>set rows. r = []"
      using ok h by (simp add: grid_ok_def list_all_iff)
    have d: "data [] rows = []"
      using e by (induction rows) (simp_all add: data_def row_object_def fromEntries_def)
    have f: "filter (\<lambda>r. \<not> spec_row_empty [] r) xs = []" for xs
      by (simp add: spec_row_empty_def)
    show ?thesis
      using h by (simp add: csv_def headers_def spec_csv_def d f)
  next
    case (Cons h hs)
    have h: "h = []" and ne: "\<forall>x\<in>set hs. x \<noteq> []" and dist: "distinct hs"
      and wide: "\<forall>r\<in>set rows. length r = Suc (length hs)"
      using ok Cons by (auto simp: grid_ok_def list_all_iff dest: arg_cong [where f = length])
    have hd: "headers hcells = hs"
      using Cons h ne by (simp add: headers_def filter_id_conv)
    show ?thesis
      using lines_aligned [OF dist wide, of proto]
      by (simp add: csv_def hd spec_csv_def Cons del: drop_map)
  qed
  show ?thesis by (simp add: csv_script_def eq)
qed

theorem export_on_aligned_grid_witness:
  "grid_ok (map trim ['' '', ''Name '', ''Version''])
     (map (map trim) [[''x'', ''nano'', ''6.2''], ['''', '''', '' ''], [''y'', ''vim'', '''']]) \<and>
   csv_script page_epo =
     [DownloadBlob ''data.csv'' ''text/csv''
        (''Name,Version'' @ [newline] @ ''nano,6.2'' @ [newline] @ ''vim,'')]"
proof -
  have g: "grid_ok (map trim ['' '', ''Name '', ''Version''])
     (map (map trim) [[''x'', ''nano'', ''6.2''], ['''', '''', '' ''], [''y'', ''vim'', '''']])"
    by code_simp
  have s: "spec_csv (map trim ['' '', ''Name '', ''Version''])
     (map (map trim) [[''x'', ''nano'', ''6.2''], ['''', '''', '' ''], [''y'', ''vim'', '''']]) =
       ''Name,Version'' @ [newline] @ ''nano,6.2'' @ [newline] @ ''vim,''"
    by code_simp
  show ?thesis
    using g s export_on_aligned_grid [of "['' '', ''Name '', ''Version'']"
        "[[''x'', ''nano'', ''6.2''], ['''', '''', '' ''], [''y'', ''vim'', '''']]" v8_Object_prototype]
    by (simp add: page_epo_def)
qed

section \<open>The pattern of a plain name\<close>

lemma scan_plain:
  "plain pkg \<Longrightarrow>
     scan (Top f) acc (pkg @ CHR ''['' # rest) = scan (InClass []) (rev (map literal pkg) @ acc) rest"
proof (induction pkg arbitrary: f acc)
  case Nil
  show ?case by (simp add: backslash_def)
next
  case (Cons c pkg)
  then have c: "\<not> special c" and p: "plain pkg" by (simp_all add: plain_def)
  have "scan (Top f) acc (c # pkg @ CHR ''['' # rest) =
        scan (Top AfterAtom) (literal c # acc) (pkg @ CHR ''['' # rest)"
    using c by (simp add: special_def literal_def)
  then show ?case using Cons.IH [OF p] by simp
qed

lemma scan_class_tail:
  "scan (InClass []) acc (''-].*'' @ [backslash] @ ''.rpm$'') =
     Parsed (rev acc @ Quantified (CharacterClass False ''-'') Once # Quantified Dot Star # tail_terms)"
  by (simp add: backslash_def class_of_def quantify_def isAlnum_def code_def tail_terms_def literal_def)

lemma scan_pattern:
  assumes "plain pkg"
  shows "scan (Top NoAtom) [] (pattern pkg) = Parsed (terms_of pkg)"
proof -
  have "pattern pkg = CHR ''^'' # pkg @ CHR ''['' # (''-].*'' @ [backslash] @ ''.rpm$'')"
    by (simp add: pattern_def)
  then have "scan (Top NoAtom) [] (pattern pkg) =
             scan (Top NoAtom) [AssertStart] (pkg @ CHR ''['' # (''-].*'' @ [backslash] @ ''.rpm$''))"
    by simp
  also have "\<dots> = scan (InClass []) (rev (map literal pkg) @ [AssertStart]) (''-].*'' @ [backslash] @ ''.rpm$'')"
    using assms by (rule scan_plain)
  also have "\<dots> = Parsed (terms_of pkg)"
    by (simp only: scan_class_tail) (simp add: terms_of_def)
  finally show ?thesis .
qed

section \<open>What the terms match\<close>

lemma test_from_anchored: "test_from (AssertStart # ts) False s = False"
  by (induction s) simp_all

lemma test_anchored: "test (AssertStart # ts) s = matches_here ts True s"
  by (cases s) (simp_all add: test_def test_from_anchored)

lemma matches_literals:
  "matches_here (map literal pkg @ ts) b s =
     (length pkg \<le> length s \<and> map Canonicalize (take (length pkg) s) = map Canonicalize pkg \<and>
      matches_here ts (b \<and> pkg = []) (drop (length pkg) s))"
proof (induction pkg arbitrary: b s)
  case Nil
  show ?case by simp
next
  case (Cons c pkg)
  show ?case
  proof (cases s)
    case Nil
    then show ?thesis by (simp add: literal_def)
  next
    case (Cons d ds)
    then show ?thesis using Cons.IH [of False ds] by (auto simp: literal_def)
  qed
qed

lemma matches_tail:
  "matches_here tail_terms b s = (map Canonicalize s = map Canonicalize ''.rpm'')"
proof -
  have "matches_here (map literal ''.rpm'' @ [AssertEnd]) b s = (map Canonicalize s = map Canonicalize ''.rpm'')"
    unfolding matches_literals by (cases "length s = 4") (auto dest: arg_cong [where f = length])
  then show ?thesis by (simp add: tail_terms_def)
qed

lemma matches_dot_star:
  "matches_here (Quantified Dot Star # tail_terms) b s =
     (4 \<le> length s \<and> list_all (\<lambda>c. \<not> isLineTerminator c) (take (length s - 4) s) \<and>
      map Canonicalize (drop (length s - 4) s) = map Canonicalize ''.rpm'')"
proof (induction s arbitrary: b)
  case Nil
  show ?case by (simp add: matches_tail)
next
  case (Cons c cs)
  have len: "map Canonicalize xs = map Canonicalize ''.rpm'' \<Longrightarrow> length xs = 4" for xs
    by (auto dest: arg_cong [where f = length])
  show ?case
  proof (cases "length cs < 4")
    case True
    then have "\<not> matches_here (Quantified Dot Star # tail_terms) False cs"
      using Cons.IH by simp
    moreover have "length (c # cs) - 4 = 0" using True by simp
    ultimately show ?thesis
      using True by (auto simp: matches_tail dest: len)
  next
    case False
    then have "Suc (length cs) - 4 = Suc (length cs - 4)" by simp
    moreover have "map Canonicalize (c # cs) \<noteq> map Canonicalize ''.rpm''"
      using False len [of "c # cs"] by auto
    ultimately show ?thesis
      using False Cons.IH [of False] by (auto simp: matches_tail)
  qed
qed

lemma matches_class:
  "matches_here (Quantified (CharacterClass False ''-'') Once # ts) b s =
     (s \<noteq> [] \<and> Canonicalize (hd s) = Canonicalize (CHR ''-'') \<and> matches_here ts False (tl s))"
  by (cases s) auto

lemma test_terms_of:
  "test (terms_of pkg) fname =
     (length pkg + 5 \<le> length fname \<and>
      map Canonicalize (take (length pkg) fname) = map Canonicalize pkg \<and>
      Canonicalize (fname ! length pkg) = Canonicalize (CHR ''-'') \<and>
      list_all (\<lambda>c. \<not> isLineTerminator c) (between pkg fname) \<and>
      map Canonicalize (drop (length fname - 4) fname) = map Canonicalize ''.rpm'')"
proof -
  let ?n = "length pkg"
  let ?rest = "drop (Suc ?n) fname"
  have step: "test (terms_of pkg) fname =
     (?n \<le> length fname \<and> map Canonicalize (take ?n fname) = map Canonicalize pkg \<and>
      drop ?n fname \<noteq> [] \<and> Canonicalize (hd (drop ?n fname)) = Canonicalize (CHR ''-'') \<and>
      matches_here (Quantified Dot Star # tail_terms) False (tl (drop ?n fname)))"
    by (simp add: terms_of_def test_anchored matches_literals matches_class)
  have tl: "tl (drop ?n fname) = ?rest"
    by (simp add: drop_Suc tl_drop)
  show ?thesis
  proof (cases "?n + 5 \<le> length fname")
    case False
    then have "\<not> 4 \<le> length ?rest" by simp
    then have "\<not> matches_here (Quantified Dot Star # tail_terms) False ?rest"
      by (simp only: matches_dot_star) simp
    then show ?thesis using False step tl by simp
  next
    case True
    have ne: "drop ?n fname \<noteq> []" using True by simp
    have h: "hd (drop ?n fname) = fname ! ?n"
      using True by (simp add: hd_drop_conv_nth)
    have len: "length ?rest - 4 = length fname - (?n + 5)"
      by simp
    have "length ?rest - 4 + Suc ?n = length fname - 4"
      using True by simp
    then have d: "drop (length ?rest - 4) ?rest = drop (length fname - 4) fname"
      by (simp only: drop_drop)
    have b: "take (length ?rest - 4) ?rest = between pkg fname"
      unfolding len by (simp add: between_def)
    have four: "4 \<le> length ?rest" using True by simp
    have "matches_here (Quantified Dot Star # tail_terms) False ?rest =
          (list_all (\<lambda>c. \<not> isLineTerminator c) (between pkg fname) \<and>
           map Canonicalize (drop (length fname - 4) fname) = map Canonicalize ''.rpm'')"
      unfolding matches_dot_star b d using four by blast
    then show ?thesis
      unfolding step tl h using True ne by auto
  qed
qed

text \<open>A name followed by \<open>-\<close> and the extension \<open>.rpm\<close> cannot share a character.\<close>

lemma spec_target_length:
  assumes "spec_target pkg fname"
  shows "length pkg + 5 \<le> length fname"
proof (rule ccontr)
  assume "\<not> length pkg + 5 \<le> length fname"
  then have short: "length fname < length pkg + 5" by simp
  let ?cf = "map Canonicalize fname"
  have pre: "take (Suc (length pkg)) ?cf = map Canonicalize pkg @ [Canonicalize (CHR ''-'')]"
    and four: "4 \<le> length fname"
    and suf: "drop (length fname - 4) ?cf = map Canonicalize ''.rpm''"
    using assms by (simp_all add: spec_target_def startsWith_def endsWith_def eval_nat_numeral)
  have long: "length pkg < length fname"
    using arg_cong [OF pre, of length] by simp
  have dash: "?cf ! length pkg = Canonicalize (CHR ''-'')"
    using arg_cong [OF pre, of "\<lambda>xs. xs ! length pkg"] long by (simp add: nth_append)
  have "?cf ! length pkg = drop (length fname - 4) ?cf ! (length pkg - (length fname - 4))"
    using short four long by simp
  also have "\<dots> \<in> set (map Canonicalize ''.rpm'')"
    unfolding suf using short four long by (intro nth_mem) simp
  finally have "Canonicalize (CHR ''-'') \<in> set (map Canonicalize ''.rpm'')"
    using dash by simp
  then show False by (simp add: Canonicalize_def code_def)
qed

lemma spec_target_iff:
  "spec_target pkg fname =
     (length pkg + 5 \<le> length fname \<and>
      map Canonicalize (take (length pkg) fname) = map Canonicalize pkg \<and>
      Canonicalize (fname ! length pkg) = Canonicalize (CHR ''-'') \<and>
      map Canonicalize (drop (length fname - 4) fname) = map Canonicalize ''.rpm'')"
proof (cases "length pkg + 5 \<le> length fname")
  case False
  then show ?thesis using spec_target_length [of pkg fname] by auto
next
  case True
  have "take (Suc (length pkg)) fname = take (length pkg) fname @ [fname ! length pkg]"
    using True by (simp add: take_Suc_conv_app_nth)
  then have "take (Suc (length pkg)) (map Canonicalize fname) =
             map Canonicalize (take (length pkg) fname) @ [Canonicalize (fname ! length pkg)]"
    by (simp add: take_map)
  then show ?thesis
    using True by (auto simp: spec_target_def startsWith_def endsWith_def drop_map eval_nat_numeral)
qed

text \<open>A file name with a line terminator between the \<open>-\<close> and the extension is not matched,
  because \<open>.\<close> matches no line terminator; the index lists no such name.\<close>

lemma line_feed_not_matched:
  "spec_target ''nano'' (''nano-'' @ [newline] @ ''.rpm'') \<and>
   scan (Top NoAtom) [] (pattern ''nano'') = Parsed nano_terms \<and>
   \<not> test nano_terms (''nano-'' @ [newline] @ ''.rpm'')"
  by code_simp

text \<open>For an item name without a character that is special in a pattern, the pattern compiles,
  and it matches a file name exactly when the file name starts with the item name followed by
  \<open>-\<close> and ends in \<open>.rpm\<close>, compared case-insensitively, and has no line terminator between the
  two.\<close>

lemma plain_name_target:
  assumes "plain pkg"
  shows "RegExp other (pattern pkg) = Inr (test (terms_of pkg)) \<and>
         (\<forall>fname. test (terms_of pkg) fname =
            (spec_target pkg fname \<and> list_all (\<lambda>c. \<not> isLineTerminator c) (between pkg fname)))"
proof -
  have "RegExp other (pattern pkg) = Inr (test (terms_of pkg))"
    using scan_pattern [OF assms] by (simp add: RegExp_def)
  moreover have "test (terms_of pkg) fname =
            (spec_target pkg fname \<and> list_all (\<lambda>c. \<not> isLineTerminator c) (between pkg fname))" for fname
    unfolding test_terms_of spec_target_iff by blast
  ultimately show ?thesis by blast
qed

lemma plain_name_target_example:
  "plain ''nano'' \<and>
   test (terms_of ''nano'') ''NANO-6.2-1.el9.x86_64.Rpm'' \<and>
   spec_target ''nano'' ''NANO-6.2-1.el9.x86_64.Rpm'' \<and>
   \<not> test (terms_of ''nano'') ''nanorc-1.0.rpm'' \<and>
   \<not> spec_target ''nano'' ''nanorc-1.0.rpm''"
proof -
  have p: "plain ''nano''" by code_simp
  have a: "spec_target ''nano'' ''NANO-6.2-1.el9.x86_64.Rpm''" by code_simp
  have b: "list_all (\<lambda>c. \<not> isLineTerminator c) (between ''nano'' ''NANO-6.2-1.el9.x86_64.Rpm'')" by code_simp
  have c: "\<not> spec_target ''nano'' ''nanorc-1.0.rpm''" by code_simp
  show ?thesis
    using p a b c plain_name_target [OF p] by simp
qed

section \<open>Names with special characters\<close>

text \<open>
  C4. On the names without special characters the script matches as the claim says, up to the
  line terminators above, and it breaks the claim on the others: line 64 puts the item name into
  the pattern without escaping it, so a name with a character that is special in a pattern is
  read as pattern text. In the folder
  \<open>m\<close>, the file \<open>memtest86+-7.00-1.el9.x86_64.rpm\<close> starts with the item name \<open>memtest86+\<close>
  followed by \<open>-\<close> and ends in \<open>.rpm\<close>, and the run does not find it: it warns, moves the cursor
  on and reloads without a download. In the folder \<open>l\<close>, the file of \<open>libxml++\<close> is listed in
  the same way, and the pattern does not compile: the run throws a \<open>SyntaxError\<close> with the
  cursor still on the item, and so does every later run.
\<close>

theorem unescaped_name_not_matched:
  "anchors listing_m = [Some ''../'', Some ''memtest86+-7.00-1.el9.x86_64.rpm''] \<and>
   spec_target ''memtest86+'' ''memtest86+-7.00-1.el9.x86_64.rpm'' \<and>
   main listing_m (stored [''memtest86+''] 0) =
     \<lparr>store = stored [''memtest86+''] 1,
      trace = [ConsoleWarn (''No RPM found for package '' @ [dquote] @ ''memtest86+'' @ [dquote]), Reload],
      outcome = NotFound\<rparr> \<and>
   anchors listing_l = [Some ''../'', Some ''libxml++-2.40.1-1.el9.x86_64.rpm''] \<and>
   spec_target ''libxml++'' ''libxml++-2.40.1-1.el9.x86_64.rpm'' \<and>
   main listing_l (stored [''libxml++''] 0) =
     \<lparr>store = stored [''libxml++''] 0, trace = [], outcome = Threw SyntaxError\<rparr>"
  by code_simp

section \<open>After completion\<close>

text \<open>The storage a completed walk leaves has no worklist, so the next run does not complete
  again: it asks for a new list.\<close>

lemma run_after_completion_prompts:
  "hd (trace (main e no_entries)) = Prompt prompt_text \<and> outcome (main e no_entries) \<noteq> Completed"
proof -
  obtain st' fx go where i: "initialize e no_entries = (st', fx, go)"
    by (cases "initialize e no_entries") auto
  then have fx: "hd fx = Prompt prompt_text \<and> fx \<noteq> []"
    by (auto simp: initialize_def no_entries_def split: option.splits if_splits)
  have st': "go \<longrightarrow> epel9_rpm_packages st' \<noteq> None \<and> epel9_rpm_index st' = Some 0 \<and> the (epel9_rpm_packages st') \<noteq> []"
    using i by (auto simp: initialize_def no_entries_def split: option.splits if_splits)
  show ?thesis
  proof (cases go)
    case False
    then show ?thesis using i fx by (simp add: main_halt)
  next
    case True
    then obtain W where W: "epel9_rpm_packages st' = Some W" "W \<noteq> []" "epel9_rpm_index st' = Some 0"
      using st' by auto
    then have "walk e st' = process e st' 0 (W ! 0)"
      by (simp add: walk_in_range)
    then have "outcome (walk e st') \<noteq> Completed"
      using process_trace_cases [of e st' 0 "W ! 0"] by auto
    then show ?thesis
      using True i fx main_unfold [of e no_entries st' fx] by simp
  qed
qed

end
